theory Spec2Isabelle
  imports Complex_Main "HOL-Library.Multiset"
begin

text \<open>
  The leaderboard refresh of CodeSense and its single-platform update route: the four
  platform stat fetchers, the aggregation of a user's scores, the batches and timers of
  \<open>refreshLeaderboard\<close>, the rank recomputation (all of the leaderboard route), and the
  handler of \<open>update-codeforces-stats/route.js\<close>. External services appear as
  parameters: the responses of the stat endpoints and of the repository host, and the
  store as the list of its documents.
\<close>

section \<open>JavaScript values\<close>

text \<open>
  The payloads of the three JSON stat endpoints and the body of an update request are
  untyped JavaScript values. Numbers are the integer-valued ones, on which JavaScript
  arithmetic is exact (magnitude below \<open>2^53\<close>); \<open>NaN\<close> is the only other number
  that the operations below can produce. An object is the association list of its own
  properties, the first binding of a key being the one that counts.
\<close>

datatype jsval =
    Undefined
  | Null
  | Bool bool
  | Num int
  | NaN
  | Str string
  | Arr "jsval list"
  | Obj "(string \<times> jsval) list"

datatype jsError = TypeError

text \<open>The result of awaiting a promise: it rejects (the \<open>await\<close> throws) or resolves.\<close>

datatype 'a awaited = Rejected | Resolved 'a

text \<open>Truthiness, as tested by \<open>!x\<close>, \<open>x ? a : b\<close> and \<open>x || y\<close>.\<close>

fun truthy :: "jsval \<Rightarrow> bool" where
  "truthy Undefined = False"
| "truthy Null = False"
| "truthy (Bool b) = b"
| "truthy (Num n) = (n \<noteq> 0)"
| "truthy NaN = False"
| "truthy (Str s) = (s \<noteq> [])"
| "truthy (Arr xs) = True"
| "truthy (Obj kvs) = True"

definition js_or :: "jsval \<Rightarrow> jsval \<Rightarrow> jsval" where
  "js_or a b = (if truthy a then a else b)"

text \<open>
  Property access \<open>v.k\<close> for the property names the program reads (\<open>success\<close>,
  \<open>heatMap\<close>, \<open>length\<close>, \<open>status\<close>, \<open>result\<close>, \<open>contribution\<close>, \<open>totalSolved\<close>,
  \<open>email\<close>, \<open>codeforcesUsername\<close>, \<open>stats\<close>): none of them is inherited from a
  prototype, so the value is an own property or \<open>undefined\<close>. Reading a property of
  \<open>undefined\<close> or \<open>null\<close> throws a TypeError.
\<close>

fun getProp :: "jsval \<Rightarrow> string \<Rightarrow> jsError + jsval" where
  "getProp Undefined k = Inl TypeError"
| "getProp Null k = Inl TypeError"
| "getProp (Obj kvs) k = Inr (case map_of kvs k of None \<Rightarrow> Undefined | Some v \<Rightarrow> v)"
| "getProp (Arr xs) k = Inr (if k = ''length'' then Num (int (length xs)) else Undefined)"
| "getProp (Str s) k = Inr (if k = ''length'' then Num (int (length s)) else Undefined)"
| "getProp (Bool b) k = Inr Undefined"
| "getProp (Num n) k = Inr Undefined"
| "getProp NaN k = Inr Undefined"

text \<open>Optional chaining \<open>v?.k\<close>.\<close>

definition optProp :: "jsval \<Rightarrow> string \<Rightarrow> jsError + jsval" where
  "optProp v k = (if v = Undefined \<or> v = Null then Inr Undefined else getProp v k)"

text \<open>The element access \<open>v[0]\<close>.\<close>

fun getFirst :: "jsval \<Rightarrow> jsError + jsval" where
  "getFirst Undefined = Inl TypeError"
| "getFirst Null = Inl TypeError"
| "getFirst (Arr xs) = Inr (case xs of [] \<Rightarrow> Undefined | x # _ \<Rightarrow> x)"
| "getFirst (Str s) = Inr (case s of [] \<Rightarrow> Undefined | c # _ \<Rightarrow> Str [c])"
| "getFirst (Obj kvs) = Inr (case map_of kvs ''0'' of None \<Rightarrow> Undefined | Some v \<Rightarrow> v)"
| "getFirst (Bool b) = Inr Undefined"
| "getFirst (Num n) = Inr Undefined"
| "getFirst NaN = Inr Undefined"

text \<open>Sequencing of steps that may throw: the first exception ends the \<open>try\<close> block.\<close>

definition andThen :: "'e + 'a \<Rightarrow> ('a \<Rightarrow> 'e + 'b) \<Rightarrow> 'e + 'b" where
  "andThen m f = (case m of Inl e \<Rightarrow> Inl e | Inr x \<Rightarrow> f x)"

subsection \<open>The operator \<open>+\<close>\<close>

function showNat :: "nat \<Rightarrow> string" where
  "showNat n = (if n < 10 then [char_of (48 + n)] else showNat (n div 10) @ [char_of (48 + n mod 10)])"
  by pat_completeness auto
termination
  by (relation "measure (\<lambda>n. n)") auto

declare showNat.simps [simp del]

definition showInt :: "int \<Rightarrow> string" where
  "showInt i = (if i < 0 then CHR ''-'' # showNat (nat (- i)) else showNat (nat i))"

fun joinComma :: "string list \<Rightarrow> string" where
  "joinComma [] = []"
| "joinComma [s] = s"
| "joinComma (s # t # ss) = s @ '','' @ joinComma (t # ss)"

fun toStr :: "jsval \<Rightarrow> string" where
  "toStr Undefined = ''undefined''"
| "toStr Null = ''null''"
| "toStr (Bool b) = (if b then ''true'' else ''false'')"
| "toStr (Num n) = showInt n"
| "toStr NaN = ''NaN''"
| "toStr (Str s) = s"
| "toStr (Arr xs) = joinComma (map (\<lambda>x. if x = Undefined \<or> x = Null then [] else toStr x) xs)"
| "toStr (Obj kvs) = ''[object Object]''"

fun toPrimitive :: "jsval \<Rightarrow> jsval" where
  "toPrimitive (Arr xs) = Str (toStr (Arr xs))"
| "toPrimitive (Obj kvs) = Str (toStr (Obj kvs))"
| "toPrimitive v = v"

fun toNumber :: "jsval \<Rightarrow> int option" where
  "toNumber Null = Some 0"
| "toNumber (Bool b) = Some (if b then 1 else 0)"
| "toNumber (Num n) = Some n"
| "toNumber v = None"

fun isStr :: "jsval \<Rightarrow> bool" where
  "isStr (Str s) = True"
| "isStr v = False"

definition js_add :: "jsval \<Rightarrow> jsval \<Rightarrow> jsval" where
  "js_add a b =
     (let pa = toPrimitive a; pb = toPrimitive b in
      if isStr pa \<or> isStr pb then Str (toStr pa @ toStr pb)
      else (case (toNumber pa, toNumber pb) of
              (Some x, Some y) \<Rightarrow> Num (x + y)
            | _ \<Rightarrow> NaN))"

section \<open>Platform stat fetchers\<close>

record statResult =
  score :: jsval

text \<open>
  \<open>fetch(url)\<close> followed by \<open>response.json()\<close>: the request rejects, or it resolves to a
  response whose body fails to parse, or the body parses to a value.
\<close>

type_synonym httpFetch = "string \<Rightarrow> jsval awaited awaited"

definition awaitJson :: "jsval awaited awaited \<Rightarrow> jsError + jsval" where
  "awaitJson r = (case r of Resolved (Resolved d) \<Rightarrow> Inr d | _ \<Rightarrow> Inl TypeError)"

definition tryCodeChef :: "httpFetch \<Rightarrow> string \<Rightarrow> jsval \<Rightarrow> jsError + statResult" where
  "tryCodeChef fetch username prevScore =
     andThen (awaitJson (fetch (''https://codechef-api.vercel.app/handle/'' @ username))) (\<lambda>data.
     andThen (getProp data ''success'') (\<lambda>success.
       if truthy success then
         andThen (getProp data ''heatMap'') (\<lambda>heatMap.
         andThen (optProp heatMap ''length'') (\<lambda>len.
           Inr \<lparr>score = js_or len (Num 0)\<rparr>))
       else Inr \<lparr>score = prevScore\<rparr>))"

definition fetchCodeChefStats :: "httpFetch \<Rightarrow> string \<Rightarrow> jsval \<Rightarrow> statResult" where
  "fetchCodeChefStats fetch username prevScore =
     (case tryCodeChef fetch username prevScore of
        Inr r \<Rightarrow> r
      | Inl error \<Rightarrow> \<lparr>score = prevScore\<rparr>)"

definition tryCodeforces :: "httpFetch \<Rightarrow> string \<Rightarrow> jsval \<Rightarrow> jsError + statResult" where
  "tryCodeforces fetch username prevScore =
     andThen (awaitJson (fetch (''https://codeforces.com/api/user.info?handles='' @ username))) (\<lambda>data.
     andThen (getProp data ''status'') (\<lambda>status.
       if status = Str ''OK'' then
         andThen (getProp data ''result'') (\<lambda>result.
         andThen (getFirst result) (\<lambda>first.
         andThen (getProp first ''contribution'') (\<lambda>contribution.
           Inr \<lparr>score = js_or contribution (Num 0)\<rparr>)))
       else Inr \<lparr>score = prevScore\<rparr>))"

definition fetchCodeforcesStats :: "httpFetch \<Rightarrow> string \<Rightarrow> jsval \<Rightarrow> statResult" where
  "fetchCodeforcesStats fetch username prevScore =
     (case tryCodeforces fetch username prevScore of
        Inr r \<Rightarrow> r
      | Inl error \<Rightarrow> \<lparr>score = prevScore\<rparr>)"

definition tryLeetCode :: "httpFetch \<Rightarrow> string \<Rightarrow> jsval \<Rightarrow> jsError + statResult" where
  "tryLeetCode fetch username prevScore =
     andThen (awaitJson (fetch (''https://leetcode-stats-api.herokuapp.com/'' @ username))) (\<lambda>data.
     andThen (getProp data ''status'') (\<lambda>status.
       if status = Str ''success'' then
         andThen (getProp data ''totalSolved'') (\<lambda>totalSolved.
           Inr \<lparr>score = js_or totalSolved (Num 0)\<rparr>)
       else Inr \<lparr>score = prevScore\<rparr>))"

definition fetchLeetCodeStats :: "httpFetch \<Rightarrow> string \<Rightarrow> jsval \<Rightarrow> statResult" where
  "fetchLeetCodeStats fetch username prevScore =
     (case tryLeetCode fetch username prevScore of
        Inr r \<Rightarrow> r
      | Inl error \<Rightarrow> \<lparr>score = prevScore\<rparr>)"

text \<open>
  The repository host is reached through its client library, whose requests reject or
  resolve to a response carrying a list: the names of the user's repositories, and the
  commits of one repository.
\<close>

type_synonym commit = string

record octokit =
  listRepos :: "string \<Rightarrow> string list awaited"
  listCommits :: "string \<Rightarrow> string \<Rightarrow> commit list awaited"

text \<open>
  One callback of \<open>Promise.all\<close>: it adds the length of the repository's commit list to
  \<open>totalCommits\<close>, or logs the error and adds nothing. Each addition runs to completion
  on the single thread, so the order in which the requests finish does not change the
  total; the callbacks are taken in list order.
\<close>

definition addCommits :: "octokit \<Rightarrow> string \<Rightarrow> nat \<Rightarrow> string \<Rightarrow> nat" where
  "addCommits api owner totalCommits repo =
     (case listCommits api owner repo of
        Resolved commits \<Rightarrow> totalCommits + length commits
      | Rejected \<Rightarrow> totalCommits)"

definition fetchGitHubStats :: "octokit \<Rightarrow> string option \<Rightarrow> jsval \<Rightarrow> statResult" where
  "fetchGitHubStats api username prevScore =
     (case username of
        None \<Rightarrow> \<lparr>score = prevScore\<rparr>
      | Some name \<Rightarrow>
          if name = [] then \<lparr>score = prevScore\<rparr>
          else (case listRepos api name of
                  Rejected \<Rightarrow> \<lparr>score = prevScore\<rparr>
                | Resolved repos \<Rightarrow>
                    if length repos = 0 then \<lparr>score = prevScore\<rparr>
                    else \<lparr>score = Num (int (foldl (addCommits api name) 0 repos))\<rparr>))"

section \<open>The user store\<close>

text \<open>
  Modelled from the spec: the User model (\<open>models/user\<close>) is not among the sources.
  The spec's data model gives a user an identity, a mapping from platform name to an
  entry with an optional username and an integer score, an aggregate \<open>totalScore\<close> and a
  \<open>rank\<close>. The program reads entries and scores through \<open>?.\<close> and \<open>|| 0\<close>, so an entry
  and its score may be absent. The store keeps its documents in retrieval order;
  \<open>uid\<close> is the document's \<open>_id\<close>.
\<close>

record platformEntry =
  username :: "string option"
  storedScore :: "int option"

record platforms =
  codechef :: "platformEntry option"
  codeforces :: "platformEntry option"
  leetcode :: "platformEntry option"
  github :: "platformEntry option"

record user =
  uid :: nat
  email :: string
  platforms :: platforms
  totalScore :: int
  rank :: int

type_synonym store = "user list"

datatype storeError = CastError

text \<open>
  Modelled from the spec: the schema of \<open>models/user\<close> is missing; the spec declares
  scores, \<open>totalScore\<close> and \<open>rank\<close> integers and usernames strings. A write of any
  other value to such a field is taken to be refused by the store.
\<close>

fun castNumber :: "jsval \<Rightarrow> storeError + int" where
  "castNumber (Num n) = Inr n"
| "castNumber v = Inl CastError"

fun castString :: "jsval \<Rightarrow> storeError + string" where
  "castString (Str s) = Inr s"
| "castString v = Inl CastError"

text \<open>\<open>entry?.score\<close> as a JavaScript value.\<close>

definition scoreOf :: "platformEntry option \<Rightarrow> jsval" where
  "scoreOf entry =
     (case entry of
        None \<Rightarrow> Undefined
      | Some e \<Rightarrow> (case storedScore e of None \<Rightarrow> Undefined | Some n \<Rightarrow> Num n))"

text \<open>The username handed to a fetcher when \<open>entry?.username\<close> is truthy.\<close>

definition registered :: "platformEntry option \<Rightarrow> string option" where
  "registered entry =
     (case entry of
        None \<Rightarrow> None
      | Some e \<Rightarrow> (case username e of
                    None \<Rightarrow> None
                  | Some s \<Rightarrow> if truthy (Str s) then Some s else None))"

text \<open>A \<open>$set\<close> of the dotted path \<open>platforms.<name>.score\<close> creates a missing entry.\<close>

definition setScore :: "int \<Rightarrow> platformEntry option \<Rightarrow> platformEntry option" where
  "setScore n entry =
     (case entry of
        None \<Rightarrow> Some \<lparr>username = None, storedScore = Some n\<rparr>
      | Some e \<Rightarrow> Some (e\<lparr>storedScore := Some n\<rparr>))"

section \<open>Score aggregation\<close>

record environment =
  fetch :: httpFetch
  octokitApi :: octokit

text \<open>The update document handed to \<open>User.findByIdAndUpdate\<close>.\<close>

record scoreUpdate =
  codechefScore :: jsval
  codeforcesScore :: jsval
  leetcodeScore :: jsval
  githubScore :: jsval
  newTotalScore :: jsval

definition aggregate :: "environment \<Rightarrow> user \<Rightarrow> scoreUpdate" where
  "aggregate env u =
     (let prevCodechef = js_or (scoreOf (codechef (platforms u))) (Num 0);
          prevCodeforces = js_or (scoreOf (codeforces (platforms u))) (Num 0);
          prevLeetcode = js_or (scoreOf (leetcode (platforms u))) (Num 0);
          prevGithub = js_or (scoreOf (github (platforms u))) (Num 0);
          codechefStats =
            (case registered (codechef (platforms u)) of
               Some name \<Rightarrow> fetchCodeChefStats (fetch env) name prevCodechef
             | None \<Rightarrow> \<lparr>score = prevCodechef\<rparr>);
          codeforcesStats =
            (case registered (codeforces (platforms u)) of
               Some name \<Rightarrow> fetchCodeforcesStats (fetch env) name prevCodeforces
             | None \<Rightarrow> \<lparr>score = prevCodeforces\<rparr>);
          leetcodeStats =
            (case registered (leetcode (platforms u)) of
               Some name \<Rightarrow> fetchLeetCodeStats (fetch env) name prevLeetcode
             | None \<Rightarrow> \<lparr>score = prevLeetcode\<rparr>);
          githubStats =
            (case registered (github (platforms u)) of
               Some name \<Rightarrow> fetchGitHubStats (octokitApi env) (Some name) prevGithub
             | None \<Rightarrow> \<lparr>score = prevGithub\<rparr>);
          total =
            js_add (js_add (js_add (score codechefStats) (score codeforcesStats))
                           (score leetcodeStats))
                   (score githubStats)
      in \<lparr>codechefScore = score codechefStats,
          codeforcesScore = score codeforcesStats,
          leetcodeScore = score leetcodeStats,
          githubScore = score githubStats,
          newTotalScore = total\<rparr>)"

text \<open>The five values of an update, cast to the types of their fields.\<close>

definition castUpdate :: "scoreUpdate \<Rightarrow> storeError + (int \<times> int \<times> int \<times> int \<times> int)" where
  "castUpdate upd =
     andThen (castNumber (codechefScore upd)) (\<lambda>a.
     andThen (castNumber (codeforcesScore upd)) (\<lambda>b.
     andThen (castNumber (leetcodeScore upd)) (\<lambda>c.
     andThen (castNumber (githubScore upd)) (\<lambda>d.
     andThen (castNumber (newTotalScore upd)) (\<lambda>t.
       Inr (a, b, c, d, t))))))"

fun applyUpdate :: "int \<times> int \<times> int \<times> int \<times> int \<Rightarrow> user \<Rightarrow> user" where
  "applyUpdate (a, b, c, d, t) x =
     x\<lparr>platforms :=
         \<lparr>codechef = setScore a (codechef (platforms x)),
          codeforces = setScore b (codeforces (platforms x)),
          leetcode = setScore c (leetcode (platforms x)),
          github = setScore d (github (platforms x))\<rparr>,
       totalScore := t\<rparr>"

text \<open>
  \<open>User.findByIdAndUpdate(id, update)\<close>: the update is refused as a whole when a value
  does not cast; otherwise the document with that \<open>_id\<close> is changed, and a store without
  such a document stays as it is.
\<close>

definition findByIdAndUpdate :: "nat \<Rightarrow> scoreUpdate \<Rightarrow> store \<Rightarrow> storeError + store" where
  "findByIdAndUpdate i upd db =
     (case castUpdate upd of
        Inl e \<Rightarrow> Inl e
      | Inr vals \<Rightarrow> Inr (map (\<lambda>x. if uid x = i then applyUpdate vals x else x) db))"

text \<open>
  The loop of \<open>updateLeaderboardBatch\<close>: users one after the other; an error of the
  write is caught and logged, and the loop goes on with the next user.
\<close>

fun updateLeaderboardBatch :: "environment \<Rightarrow> user list \<Rightarrow> store \<Rightarrow> store" where
  "updateLeaderboardBatch env [] db = db"
| "updateLeaderboardBatch env (u # users) db =
     updateLeaderboardBatch env users
       (case findByIdAndUpdate (uid u) (aggregate env u) db of
          Inr db' \<Rightarrow> db'
        | Inl error \<Rightarrow> db)"

section \<open>Rank recomputation\<close>

text \<open>
  \<open>User.find().sort({ totalScore: -1 })\<close>: the documents by \<open>totalScore\<close> descending,
  documents of equal \<open>totalScore\<close> in retrieval order.
\<close>

definition findSortedByTotalScore :: "store \<Rightarrow> user list" where
  "findSortedByTotalScore db = sort_key (\<lambda>u. - totalScore u) db"

definition setRank :: "nat \<Rightarrow> int \<Rightarrow> store \<Rightarrow> store" where
  "setRank i r db = map (\<lambda>x. if uid x = i then x\<lparr>rank := r\<rparr> else x) db"

text \<open>The loop \<open>for (let i = 0; i < updatedUsers.length; i++)\<close>, from index \<open>i\<close> on.\<close>

fun assignRanks :: "nat \<Rightarrow> user list \<Rightarrow> store \<Rightarrow> store" where
  "assignRanks i [] db = db"
| "assignRanks i (u # updatedUsers) db =
     assignRanks (i + 1) updatedUsers (setRank (uid u) (int i + 1) db)"

definition updateRanks :: "store \<Rightarrow> store" where
  "updateRanks db = assignRanks 0 (findSortedByTotalScore db) db"

section \<open>The refresh\<close>

text \<open>
  \<open>refreshLeaderboard\<close> only registers timers: one per batch and one for the ranks.
  A timer is its delay in milliseconds and the work it starts. Delays are computed with
  \<open>/\<close> and \<open>*\<close> on numbers; they are taken as exact rationals.
\<close>

datatype task = Batch "user list" | Ranks

type_synonym timer = "rat \<times> task"

text \<open>
  The loop \<open>for (let i = 0; i < users.length; i += batchSize)\<close>, from index \<open>i\<close> on.
  With \<open>batchSize = 0\<close> and a user left, the loop never ends: the result is \<open>None\<close>.
\<close>

function batchTimers :: "nat \<Rightarrow> nat \<Rightarrow> nat \<Rightarrow> user list \<Rightarrow> timer list option" where
  "batchTimers batchSize updateInterval i users =
     (if i < length users then
        (if batchSize = 0 then None
         else map_option
                (\<lambda>timers. ((of_nat i / of_nat batchSize) * of_nat updateInterval,
                            Batch (take batchSize (drop i users))) # timers)
                (batchTimers batchSize updateInterval (i + batchSize) users))
      else Some [])"
  by pat_completeness auto
termination
  by (relation "measure (\<lambda>(batchSize, updateInterval, i, users). length users - i)") auto

declare batchTimers.simps [simp del]

definition rankDelay :: "nat \<Rightarrow> nat \<Rightarrow> user list \<Rightarrow> rat" where
  "rankDelay batchSize updateInterval users =
     (of_nat (length users) / of_nat batchSize) * of_nat updateInterval + 5000"

text \<open>
  The body of \<open>refreshLeaderboard\<close>, its two constants \<open>batchSize\<close> and
  \<open>updateInterval\<close> taken as parameters: \<open>users\<close> is the store as read by
  \<open>User.find()\<close>, the batch timers are registered first, the rank timer last.
\<close>

definition scheduleRefresh :: "nat \<Rightarrow> nat \<Rightarrow> store \<Rightarrow> timer list option" where
  "scheduleRefresh batchSize updateInterval db =
     (let users = db in
      map_option (\<lambda>timers. timers @ [(rankDelay batchSize updateInterval users, Ranks)])
        (batchTimers batchSize updateInterval 0 users))"

definition batchSize :: nat where
  "batchSize = 10"

definition updateInterval :: nat where
  "updateInterval = 60000"

definition refreshLeaderboard :: "store \<Rightarrow> timer list option" where
  "refreshLeaderboard db = scheduleRefresh batchSize updateInterval db"

text \<open>
  A complete refresh cycle: the timers fire in the order of their delays (timers of
  equal delay in the order of registration), and the work of each one is finished
  before the next one starts.
\<close>

fun runTask :: "environment \<Rightarrow> task \<Rightarrow> store \<Rightarrow> store" where
  "runTask env (Batch users) db = updateLeaderboardBatch env users db"
| "runTask env Ranks db = updateRanks db"

definition runTimers :: "environment \<Rightarrow> timer list \<Rightarrow> store \<Rightarrow> store" where
  "runTimers env timers db = foldl (\<lambda>d timer. runTask env (snd timer) d) db (sort_key fst timers)"

definition refreshCycle :: "environment \<Rightarrow> store \<Rightarrow> store option" where
  "refreshCycle env db = map_option (\<lambda>timers. runTimers env timers db) (refreshLeaderboard db)"

section \<open>The single-platform update request\<close>

record response =
  status :: nat
  message :: string

text \<open>
  \<open>User.findOne({ email })\<close>: the first document whose email is the given value.
\<close>

definition findOne :: "jsval \<Rightarrow> store \<Rightarrow> user option" where
  "findOne e db = find (\<lambda>u. Str (email u) = e) db"

datatype requestError = Thrown jsError | Refused storeError

text \<open>
  The two assignments to \<open>user.platforms.codeforces\<close> and \<open>user.save()\<close>. Assigning to
  a property of a missing entry throws; an absent \<open>contribution\<close> leaves no stored score.
\<close>

definition saveCodeforces :: "jsval \<Rightarrow> jsval \<Rightarrow> user \<Rightarrow> requestError + user" where
  "saveCodeforces codeforcesUsername contribution u =
     (case codeforces (platforms u) of
        None \<Rightarrow> Inl (Thrown TypeError)
      | Some entry \<Rightarrow>
          (case castString codeforcesUsername of
             Inl e \<Rightarrow> Inl (Refused e)
           | Inr name \<Rightarrow>
               if contribution = Undefined \<or> contribution = Null then
                 Inr (u\<lparr>platforms := (platforms u)\<lparr>codeforces :=
                        Some (entry\<lparr>username := Some name, storedScore := None\<rparr>)\<rparr>\<rparr>)
               else (case castNumber contribution of
                       Inl e \<Rightarrow> Inl (Refused e)
                     | Inr n \<Rightarrow>
                         Inr (u\<lparr>platforms := (platforms u)\<lparr>codeforces :=
                                Some (entry\<lparr>username := Some name, storedScore := Some n\<rparr>)\<rparr>\<rparr>))))"

definition liftThrown :: "jsError + 'a \<Rightarrow> requestError + 'a" where
  "liftThrown m = (case m of Inl e \<Rightarrow> Inl (Thrown e) | Inr x \<Rightarrow> Inr x)"

text \<open>The \<open>try\<close> block of the handler; the request body is \<open>await request.json()\<close>.\<close>

definition tryPOST :: "jsval awaited \<Rightarrow> store \<Rightarrow> requestError + (response \<times> store)" where
  "tryPOST body db =
     andThen (case body of Rejected \<Rightarrow> Inl (Thrown TypeError) | Resolved b \<Rightarrow> Inr b) (\<lambda>b.
     andThen (liftThrown (getProp b ''email'')) (\<lambda>email.
     andThen (liftThrown (getProp b ''codeforcesUsername'')) (\<lambda>codeforcesUsername.
     andThen (liftThrown (getProp b ''stats'')) (\<lambda>stats.
       if \<not> truthy email \<or> \<not> truthy codeforcesUsername \<or> \<not> truthy stats then
         Inr (\<lparr>status = 400, message = ''Missing required fields''\<rparr>, db)
       else
         (case findOne email db of
            None \<Rightarrow> Inr (\<lparr>status = 404, message = ''User not found''\<rparr>, db)
          | Some u \<Rightarrow>
              andThen (liftThrown (getProp stats ''contribution'')) (\<lambda>contribution.
              andThen (saveCodeforces codeforcesUsername contribution u) (\<lambda>u'.
                Inr (\<lparr>status = 200, message = ''User stats updated successfully''\<rparr>,
                     map (\<lambda>x. if uid x = uid u then u' else x) db))))))))"

definition POST :: "jsval awaited \<Rightarrow> store \<Rightarrow> response \<times> store" where
  "POST body db =
     (case tryPOST body db of
        Inr r \<Rightarrow> r
      | Inl error \<Rightarrow> (\<lparr>status = 500, message = ''Internal server error''\<rparr>, db))"

section \<open>Notions used to state and prove the properties\<close>

text \<open>What one repository contributes: the length of its commit list, or 0 when its request failed.\<close>

definition commitCount :: "octokit \<Rightarrow> string \<Rightarrow> string \<Rightarrow> nat" where
  "commitCount api owner repo =
     (case listCommits api owner repo of Resolved commits \<Rightarrow> length commits | Rejected \<Rightarrow> 0)"

text \<open>The users a timer's task works on.\<close>

fun batchUsers :: "task \<Rightarrow> user list" where
  "batchUsers (Batch users) = users"
| "batchUsers Ranks = []"

text \<open>The entry of a platform in a user document, and the score stored in it, if any.\<close>

datatype platform = Codechef | Codeforces | Leetcode | Github

fun entry :: "platform \<Rightarrow> user \<Rightarrow> platformEntry option" where
  "entry Codechef u = codechef (platforms u)"
| "entry Codeforces u = codeforces (platforms u)"
| "entry Leetcode u = leetcode (platforms u)"
| "entry Github u = github (platforms u)"

definition storedScoreOf :: "platformEntry option \<Rightarrow> int option" where
  "storedScoreOf e = (case e of None \<Rightarrow> None | Some pe \<Rightarrow> storedScore pe)"

text \<open>
  What one iteration of the batch loop makes of the store document \<open>x\<close> when it
  processes the user \<open>u\<close> as read at the start of the refresh: the update aggregated
  from \<open>u\<close> is set in \<open>x\<close>, or \<open>x\<close> stays as it is when the store refuses the update.
  For a document processed from its own state this is \<open>refreshed\<close>.
\<close>

definition writeFrom :: "environment \<Rightarrow> user \<Rightarrow> user \<Rightarrow> user" where
  "writeFrom env u x =
     (case castUpdate (aggregate env u) of Inl e \<Rightarrow> x | Inr vals \<Rightarrow> applyUpdate vals x)"

definition refreshed :: "environment \<Rightarrow> user \<Rightarrow> user" where
  "refreshed env u =
     (case castUpdate (aggregate env u) of Inl e \<Rightarrow> u | Inr vals \<Rightarrow> applyUpdate vals u)"

text \<open>
  The document \<open>x\<close> after the rank loop has run over \<open>us\<close> from index \<open>i\<close> on: the
  first user of \<open>us\<close> with the id of \<open>x\<close> gives it its rank.
\<close>

fun rankIn :: "nat \<Rightarrow> user list \<Rightarrow> user \<Rightarrow> user" where
  "rankIn i [] x = x"
| "rankIn i (u # us) x = (if uid u = uid x then x\<lparr>rank := int i + 1\<rparr> else rankIn (i + 1) us x)"

section \<open>Example data\<close>

text \<open>Responses of the stat endpoints.\<close>

definition emptyResultFetch :: httpFetch where
  "emptyResultFetch url = Resolved (Resolved (Obj [(''status'', Str ''OK''), (''result'', Arr [])]))"






definition exampleFetch :: httpFetch where
  "exampleFetch url =
     (if url = ''https://codechef-api.vercel.app/handle/alice'' then
        Resolved (Resolved (Obj [(''success'', Bool True),
          (''heatMap'', Arr [Num 1, Num 0, Num 2, Num 1, Num 3, Num 1, Num 1, Num 2])]))
      else if url = ''https://codeforces.com/api/user.info?handles=alice_cf'' then
        Resolved (Resolved (Obj [(''status'', Str ''OK''),
          (''result'', Arr [Obj [(''contribution'', Num 12)]])]))
      else if url = ''https://leetcode-stats-api.herokuapp.com/bob_lc'' then
        Resolved (Resolved (Obj [(''status'', Str ''success''), (''totalSolved'', Num 40)]))
      else Rejected)"

text \<open>
  A repository host on which \<open>bob\<close> owns two repositories of 3 and 5 commits,
  \<open>carol\<close> owns none, one of the two commit requests for \<open>dave\<close> fails, and every
  other user is unknown.
\<close>

definition exampleHost :: octokit where
  "exampleHost =
     \<lparr>listRepos = (\<lambda>name.
        if name = ''bob'' then Resolved [''alpha'', ''beta'']
        else if name = ''carol'' then Resolved []
        else if name = ''dave'' then Resolved [''gamma'', ''delta'']
        else Rejected),
      listCommits = (\<lambda>owner repo.
        if repo = ''alpha'' then Resolved [''c1'', ''c2'', ''c3'']
        else if repo = ''beta'' then Resolved [''c4'', ''c5'', ''c6'', ''c7'', ''c8'']
        else if repo = ''gamma'' then Resolved [''c9'', ''c10'']
        else Rejected)\<rparr>"

definition exampleEnv :: environment where
  "exampleEnv = \<lparr>fetch = exampleFetch, octokitApi = exampleHost\<rparr>"

text \<open>A store of three users, and the same store after a complete refresh cycle.\<close>

definition alice :: user where
  "alice = \<lparr>uid = 1, email = ''alice@example.com'',
     platforms = \<lparr>codechef = Some \<lparr>username = Some ''alice'', storedScore = Some 5\<rparr>,
                  codeforces = Some \<lparr>username = Some ''alice_cf'', storedScore = Some 3\<rparr>,
                  leetcode = Some \<lparr>username = None, storedScore = Some 4\<rparr>,
                  github = None\<rparr>,
     totalScore = 12, rank = 2\<rparr>"

definition bob :: user where
  "bob = \<lparr>uid = 2, email = ''bob@example.com'',
     platforms = \<lparr>codechef = None,
                  codeforces = Some \<lparr>username = Some [], storedScore = Some 7\<rparr>,
                  leetcode = Some \<lparr>username = Some ''bob_lc'', storedScore = None\<rparr>,
                  github = Some \<lparr>username = Some ''bob'', storedScore = Some 1\<rparr>\<rparr>,
     totalScore = 8, rank = 3\<rparr>"

definition carol :: user where
  "carol = \<lparr>uid = 3, email = ''carol@example.com'',
     platforms = \<lparr>codechef = Some \<lparr>username = None, storedScore = Some 9\<rparr>,
                  codeforces = Some \<lparr>username = None, storedScore = Some 0\<rparr>,
                  leetcode = Some \<lparr>username = None, storedScore = Some 6\<rparr>,
                  github = Some \<lparr>username = None, storedScore = Some 5\<rparr>\<rparr>,
     totalScore = 20, rank = 1\<rparr>"

definition exampleStore :: store where
  "exampleStore = [alice, bob, carol]"

definition aliceRefreshed :: user where
  "aliceRefreshed = \<lparr>uid = 1, email = ''alice@example.com'',
     platforms = \<lparr>codechef = Some \<lparr>username = Some ''alice'', storedScore = Some 8\<rparr>,
                  codeforces = Some \<lparr>username = Some ''alice_cf'', storedScore = Some 12\<rparr>,
                  leetcode = Some \<lparr>username = None, storedScore = Some 4\<rparr>,
                  github = Some \<lparr>username = None, storedScore = Some 0\<rparr>\<rparr>,
     totalScore = 24, rank = 2\<rparr>"

definition bobRefreshed :: user where
  "bobRefreshed = \<lparr>uid = 2, email = ''bob@example.com'',
     platforms = \<lparr>codechef = Some \<lparr>username = None, storedScore = Some 0\<rparr>,
                  codeforces = Some \<lparr>username = Some [], storedScore = Some 7\<rparr>,
                  leetcode = Some \<lparr>username = Some ''bob_lc'', storedScore = Some 40\<rparr>,
                  github = Some \<lparr>username = Some ''bob'', storedScore = Some 8\<rparr>\<rparr>,
     totalScore = 55, rank = 1\<rparr>"

definition carolRefreshed :: user where
  "carolRefreshed = carol\<lparr>rank := 3\<rparr>"

text \<open>Bodies of update requests.\<close>

definition missingStatsBody :: jsval where
  "missingStatsBody = Obj [(''email'', Str ''alice@example.com''), (''codeforcesUsername'', Str ''alice_cf'')]"

definition unknownEmailBody :: jsval where
  "unknownEmailBody =
     Obj [(''email'', Str ''nobody@example.com''), (''codeforcesUsername'', Str ''nobody''),
          (''stats'', Obj [(''contribution'', Num 10)])]"

section \<open>Properties of the fetchers\<close>









text \<open>
  C10. A Codeforces response with status \<open>"OK"\<close> and an empty result list: reading
  \<open>contribution\<close> of the missing first result throws, the handler catches it, and the
  fetcher returns \<open>{score: previousScore}\<close>, not 0 and not an exception.
\<close>

theorem codeforces_empty_result:
  assumes "http (''https://codeforces.com/api/user.info?handles='' @ handle) = Resolved (Resolved data)"
      and "getProp data ''status'' = Inr (Str ''OK'')"
      and "getProp data ''result'' = Inr (Arr [])"
  shows "fetchCodeforcesStats http handle prevScore = \<lparr>score = prevScore\<rparr>"
  using assms
  by (simp add: fetchCodeforcesStats_def tryCodeforces_def awaitJson_def andThen_def)

theorem codeforces_empty_result_witness:
  "fetchCodeforcesStats emptyResultFetch ''tourist'' (Num 7) = \<lparr>score = Num 7\<rparr>"
  using codeforces_empty_result [of emptyResultFetch "''tourist''"
          "Obj [(''status'', Str ''OK''), (''result'', Arr [])]" "Num 7"]
  by (simp add: emptyResultFetch_def)

lemma foldl_addCommits:
  "foldl (addCommits api owner) n repos = n + (\<Sum>repo\<leftarrow>repos. commitCount api owner repo)"
  by (induction repos arbitrary: n)
     (simp_all add: addCommits_def commitCount_def split: awaited.splits)

text \<open>
  C7. The repository-host fetcher: without an identifier (absent or empty) it returns
  \<open>{score: previousScore}\<close>; with an identifier whose repository list is empty it does
  the same; with a non-empty repository list it returns the sum of the lengths of the
  commit lists, a repository whose request failed counting 0. Two repositories of 3 and
  5 commits give 8.
\<close>

theorem github_stats:
  "fetchGitHubStats api None prevScore = \<lparr>score = prevScore\<rparr>
   \<and> fetchGitHubStats api (Some []) prevScore = \<lparr>score = prevScore\<rparr>
   \<and> (listRepos api name = Resolved [] \<longrightarrow>
        fetchGitHubStats api (Some name) prevScore = \<lparr>score = prevScore\<rparr>)
   \<and> (name \<noteq> [] \<and> listRepos api name = Resolved repos \<and> repos \<noteq> [] \<longrightarrow>
        fetchGitHubStats api (Some name) prevScore =
          \<lparr>score = Num (int (\<Sum>repo\<leftarrow>repos. commitCount api name repo))\<rparr>)"
  by (simp add: fetchGitHubStats_def foldl_addCommits)

theorem github_stats_witness:
  "fetchGitHubStats exampleHost (Some ''bob'') (Num 2) = \<lparr>score = Num 8\<rparr>
   \<and> fetchGitHubStats exampleHost (Some ''carol'') (Num 2) = \<lparr>score = Num 2\<rparr>
   \<and> fetchGitHubStats exampleHost (Some ''dave'') (Num 6) = \<lparr>score = Num 2\<rparr>"
  using github_stats [of exampleHost "Num 2" "''bob''" "[''alpha'', ''beta'']"]
        github_stats [of exampleHost "Num 2" "''carol''" "[]"]
        github_stats [of exampleHost "Num 6" "''dave''" "[''gamma'', ''delta'']"]
  by (simp add: exampleHost_def commitCount_def)

section \<open>Properties of the schedule\<close>

lemma batchTimers_step:
  "i < length users \<Longrightarrow> 0 < B \<Longrightarrow>
   batchTimers B I i users =
     map_option (\<lambda>timers. ((of_nat i / of_nat B) * of_nat I, Batch (take B (drop i users))) # timers)
       (batchTimers B I (i + B) users)"
  by (subst batchTimers.simps) simp

lemma batchTimers_done: "\<not> i < length users \<Longrightarrow> batchTimers B I i users = Some []"
  by (subst batchTimers.simps) simp

lemma batchTimers_returns: "0 < B \<Longrightarrow> \<exists>timers. batchTimers B I i users = Some timers"
proof (induction B I i users rule: batchTimers.induct)
  case (1 B I i users)
  show ?case
  proof (cases "i < length users")
    case True
    with 1 obtain ts where "batchTimers B I (i + B) users = Some ts" by auto
    with True 1 show ?thesis by (simp add: batchTimers_step)
  next
    case False
    then show ?thesis by (simp add: batchTimers_done)
  qed
qed

lemma batchTimers_nth:
  "0 < B \<Longrightarrow> batchTimers B I i users = Some timers \<Longrightarrow> k < length timers \<Longrightarrow>
   timers ! k = ((of_nat (i + k * B) / of_nat B) * of_nat I, Batch (take B (drop (i + k * B) users)))"
proof (induction B I i users arbitrary: timers k rule: batchTimers.induct)
  case (1 B I i users)
  show ?case
  proof (cases "i < length users")
    case True
    with 1 obtain ts where ts: "batchTimers B I (i + B) users = Some ts"
      and timers: "timers = ((of_nat i / of_nat B) * of_nat I, Batch (take B (drop i users))) # ts"
      by (auto simp: batchTimers_step)
    show ?thesis
    proof (cases k)
      case 0
      with timers show ?thesis by simp
    next
      case (Suc j)
      with 1 timers have "j < length ts" by simp
      with 1 True ts have "ts ! j = ((of_nat (i + B + j * B) / of_nat B) * of_nat I,
                                    Batch (take B (drop (i + B + j * B) users)))"
        by blast
      moreover have "i + B + j * B = i + Suc j * B" by simp
      ultimately show ?thesis using Suc timers by (simp only: nth_Cons_Suc)
    qed
  next
    case False
    with 1 show ?thesis by (simp add: batchTimers_done)
  qed
qed

lemma batch_count_step:
  assumes "0 < (B::nat)" and "i < L"
  shows "(L - i + B - 1) div B = Suc ((L - (i + B) + B - 1) div B)"
proof (cases "B \<le> L - i")
  case True
  with assms have eq1: "L - i + B - 1 = (L - i - 1) + B" by simp
  from True assms have eq2: "L - (i + B) + B - 1 = L - i - 1" by simp
  have "((L - i - 1) + B) div B = Suc ((L - i - 1) div B)"
    using assms(1) by simp
  then show ?thesis by (simp only: eq1 eq2)
next
  case False
  with assms have "(L - i + B - 1) div B = 1"
    by (simp add: div_nat_eqI)
  moreover from False assms have "(L - (i + B) + B - 1) div B = 0" by simp
  ultimately show ?thesis by simp
qed

lemma batchTimers_length:
  "0 < B \<Longrightarrow> batchTimers B I i users = Some timers \<Longrightarrow>
   length timers = (length users - i + B - 1) div B"
proof (induction B I i users arbitrary: timers rule: batchTimers.induct)
  case (1 B I i users)
  show ?case
  proof (cases "i < length users")
    case True
    with 1 obtain ts where ts: "batchTimers B I (i + B) users = Some ts"
      and timers: "timers = ((of_nat i / of_nat B) * of_nat I, Batch (take B (drop i users))) # ts"
      by (auto simp: batchTimers_step)
    with 1 True have "length ts = (length users - (i + B) + B - 1) div B" by blast
    with timers show ?thesis
      using batch_count_step [OF \<open>0 < B\<close> True] by simp
  next
    case False
    with 1 show ?thesis by (simp add: batchTimers_done)
  qed
qed

lemma batchTimers_concat:
  "0 < B \<Longrightarrow> batchTimers B I i users = Some timers \<Longrightarrow>
   concat (map (\<lambda>timer. batchUsers (snd timer)) timers) = drop i users"
proof (induction B I i users arbitrary: timers rule: batchTimers.induct)
  case (1 B I i users)
  show ?case
  proof (cases "i < length users")
    case True
    with 1 obtain ts where ts: "batchTimers B I (i + B) users = Some ts"
      and timers: "timers = ((of_nat i / of_nat B) * of_nat I, Batch (take B (drop i users))) # ts"
      by (auto simp: batchTimers_step)
    with 1 True have "concat (map (\<lambda>timer. batchUsers (snd timer)) ts) = drop (i + B) users" by blast
    moreover have "take B (drop i users) @ drop (i + B) users = drop i users"
      by (metis add.commute append_take_drop_id drop_drop)
    ultimately show ?thesis using timers by (simp del: drop_drop)
  next
    case False
    with 1 show ?thesis by (simp add: batchTimers_done)
  qed
qed

lemma ceiling_nat_div:
  assumes B: "0 < (B::nat)"
  shows "\<lceil>(of_nat L :: rat) / of_nat B\<rceil> = int ((L + B - 1) div B)"
proof -
  define q where "q = (L + B - 1) div B"
  have "q * B \<le> L + B - 1" by (simp add: q_def)
  with B have lower: "q * B < L + B" by arith
  have "L + B - 1 < B + q * B" unfolding q_def using B by (rule dividend_less_div_times)
  with B have upper: "L \<le> q * B" by arith
  from B have Bpos: "(0::rat) < of_nat B" by simp
  from upper have "(of_nat L :: rat) \<le> of_nat (q * B)" by (simp only: of_nat_le_iff)
  then have le: "(of_nat L :: rat) / of_nat B \<le> of_int (int q)"
    using Bpos by (simp add: pos_divide_le_eq)
  from lower have "(of_nat (q * B) :: rat) < of_nat (L + B)" by (simp only: of_nat_less_iff)
  then have "(of_nat q - 1) * (of_nat B :: rat) < of_nat L" by (simp add: algebra_simps)
  then have gt: "of_int (int q) - 1 < (of_nat L :: rat) / of_nat B"
    using Bpos by (simp add: pos_less_divide_eq)
  from gt le have "\<lceil>(of_nat L :: rat) / of_nat B\<rceil> = int q" by (rule ceiling_unique)
  then show ?thesis by (simp add: q_def)
qed

lemma batch_index_bound:
  assumes "0 < (B::nat)" and "k < (L + B - 1) div B"
  shows "k * B < L"
proof -
  from assms(2) have "Suc k \<le> (L + B - 1) div B" by simp
  then have "Suc k * B \<le> (L + B - 1) div B * B" by (rule mult_le_mono1)
  also have "\<dots> \<le> L + B - 1" by simp
  finally show ?thesis using assms(1) by simp
qed

lemma batch_full_bound:
  assumes "0 < (B::nat)" and "Suc k < (L + B - 1) div B"
  shows "Suc k * B \<le> L"
  using batch_index_bound [OF assms] by simp

lemma batch_last_bound:
  assumes "0 < (B::nat)" and "\<not> Suc k < (L + B - 1) div B"
  shows "L - k * B \<le> B"
proof -
  from assms(2) have "(L + B - 1) div B \<le> Suc k" by simp
  then have "(L + B - 1) div B * B \<le> Suc k * B" by (rule mult_le_mono1)
  moreover have "L + B - 1 < B + (L + B - 1) div B * B"
    using assms(1) by (rule dividend_less_div_times)
  ultimately show ?thesis using assms(1) by simp
qed

text \<open>
  C5. For a positive batch size \<open>B\<close>, the scheduling loop returns, with
  \<open>\<lceil>L / B\<rceil>\<close> batch timers; batch \<open>k\<close> is the slice of \<open>B\<close> users from index
  \<open>k * B\<close>, so every batch is non-empty, every batch but the last has exactly \<open>B\<close>
  users, the last has the remaining ones (at most \<open>B\<close>), and the batches in order,
  put end to end, are the user list itself: each user once, in the original order.
\<close>

theorem batch_partition:
  assumes "0 < B"
  shows "\<exists>timers. batchTimers B I 0 users = Some timers
     \<and> int (length timers) = \<lceil>(of_nat (length users) :: rat) / of_nat B\<rceil>
     \<and> (\<forall>k<length timers. snd (timers ! k) = Batch (take B (drop (k * B) users)))
     \<and> (\<forall>k<length timers.
           0 < length (batchUsers (snd (timers ! k)))
           \<and> length (batchUsers (snd (timers ! k))) =
               (if Suc k < length timers then B else length users - k * B)
           \<and> length (batchUsers (snd (timers ! k))) \<le> B)
     \<and> concat (map (\<lambda>timer. batchUsers (snd timer)) timers) = users"
proof -
  from assms obtain timers where timers: "batchTimers B I 0 users = Some timers"
    using batchTimers_returns by blast
  have len: "length timers = (length users + B - 1) div B"
    using batchTimers_length [OF assms timers] by simp
  have nth: "snd (timers ! k) = Batch (take B (drop (k * B) users))" if "k < length timers" for k
    using batchTimers_nth [OF assms timers that] by simp
  have size: "0 < length (batchUsers (snd (timers ! k)))
           \<and> length (batchUsers (snd (timers ! k))) =
               (if Suc k < length timers then B else length users - k * B)
           \<and> length (batchUsers (snd (timers ! k))) \<le> B" if k: "k < length timers" for k
  proof -
    from k len have lt: "k * B < length users" using batch_index_bound [OF assms] by simp
    show ?thesis
    proof (cases "Suc k < length timers")
      case True
      with len have "Suc k * B \<le> length users" using batch_full_bound [OF assms] by simp
      then have "length users - k * B \<ge> B" by simp
      with True assms show ?thesis by (simp add: nth [OF k] min_def)
    next
      case False
      with len have "length users - k * B \<le> B" using batch_last_bound [OF assms] by simp
      with False lt show ?thesis by (simp add: nth [OF k] min_def)
    qed
  qed
  have conc: "concat (map (\<lambda>timer. batchUsers (snd timer)) timers) = users"
    using batchTimers_concat [OF assms timers] by simp
  have cnt: "int (length timers) = \<lceil>(of_nat (length users) :: rat) / of_nat B\<rceil>"
    by (simp only: len ceiling_nat_div [OF assms])
  from timers cnt nth size conc show ?thesis by blast
qed

theorem batch_partition_witness:
  "0 < (2::nat)
   \<and> batchTimers 2 1000 0 exampleStore = Some [(0, Batch [alice, bob]), (1000, Batch [carol])]
   \<and> (\<exists>timers. batchTimers 2 1000 0 exampleStore = Some timers
         \<and> length timers = 2
         \<and> concat (map (\<lambda>timer. batchUsers (snd timer)) timers) = exampleStore)"
  using batch_partition [of 2 1000 exampleStore]
  by (simp add: exampleStore_def batchTimers.simps)


lemma batch_before_ranks:
  assumes "0 < (B::nat)" and "k * B < L"
  shows "of_nat k * (of_nat I :: rat) < (of_nat L / of_nat B) * of_nat I + 5000"
proof -
  from assms(2) have "(of_nat (k * B) :: rat) < of_nat L" by (simp only: of_nat_less_iff)
  then have "(of_nat k :: rat) * of_nat B < of_nat L" by simp
  with assms(1) have "(of_nat k :: rat) < of_nat L / of_nat B" by (simp add: pos_less_divide_eq)
  then have "(of_nat k :: rat) * of_nat I \<le> (of_nat L / of_nat B) * of_nat I"
    by (intro mult_right_mono) simp_all
  then show ?thesis by simp
qed






section \<open>Properties of the aggregation\<close>

lemma uid_applyUpdate [simp]: "uid (applyUpdate vals x) = uid x"
  by (cases vals rule: prod_cases5) simp

lemma uid_writeFrom [simp]: "uid (writeFrom env u x) = uid x"
  by (simp add: writeFrom_def split: sum.splits)

lemma update_step:
  "(case findByIdAndUpdate (uid u) (aggregate env u) db of Inr db' \<Rightarrow> db' | Inl error \<Rightarrow> db)
     = map (\<lambda>x. if uid x = uid u then writeFrom env u x else x) db"
  by (simp add: findByIdAndUpdate_def writeFrom_def map_idI split: sum.splits)

lemma batch_Cons:
  "updateLeaderboardBatch env (u # users) db =
     updateLeaderboardBatch env users (map (\<lambda>x. if uid x = uid u then writeFrom env u x else x) db)"
  by (simp only: updateLeaderboardBatch.simps update_step)

lemma batch_append:
  "updateLeaderboardBatch env (us @ vs) db =
     updateLeaderboardBatch env vs (updateLeaderboardBatch env us db)"
  by (induction us arbitrary: db) simp_all

lemma batch_uids: "map uid (updateLeaderboardBatch env users db) = map uid db"
proof (induction users arbitrary: db)
  case Nil
  show ?case by simp
next
  case (Cons u users)
  have "map uid (map (\<lambda>x. if uid x = uid u then writeFrom env u x else x) db) = map uid db"
    by (induction db) simp_all
  with Cons show ?case by (simp only: batch_Cons)
qed

text \<open>A batch drawn from the store rewrites exactly its own users.\<close>

lemma batch_as_map:
  assumes "distinct (map uid db)" and "distinct users" and "set users \<subseteq> set db"
  shows "updateLeaderboardBatch env users db =
           map (\<lambda>x. if x \<in> set users then writeFrom env x x else x) db"
  using assms
proof (induction users arbitrary: db)
  case Nil
  show ?case by simp
next
  case (Cons u users)
  let ?step = "\<lambda>x. if uid x = uid u then writeFrom env u x else x"
  let ?db1 = "map ?step db"
  from Cons.prems have inj: "inj_on uid (set db)" by (simp add: distinct_map)
  from Cons.prems have u: "u \<in> set db" "u \<notin> set users" by auto
  have other: "uid x \<noteq> uid u" if "x \<in> set users" for x
  proof
    assume "uid x = uid u"
    moreover from that Cons.prems have "x \<in> set db" by auto
    ultimately have "x = u" using inj u(1) by (auto dest: inj_onD)
    with that u(2) show False by simp
  qed
  have step: "?step x = (if x = u then writeFrom env u u else x)" if "x \<in> set db" for x
    using that inj u(1) by (auto dest: inj_onD)
  have uids: "map uid ?db1 = map uid db" by (induction db) simp_all
  have sub: "set users \<subseteq> set ?db1"
  proof
    fix x assume x: "x \<in> set users"
    with Cons.prems have "x \<in> set db" by auto
    moreover from x have "?step x = x" using other by simp
    ultimately have "x \<in> ?step ` set db" by (rule rev_image_eqI [OF _ sym])
    then show "x \<in> set ?db1" by simp
  qed
  have new: "writeFrom env u u \<notin> set users"
    using other [of "writeFrom env u u"] by auto
  from Cons.prems have "distinct (map uid ?db1)" by (simp only: uids)
  moreover from Cons.prems have "distinct users" by simp
  ultimately have "updateLeaderboardBatch env users ?db1 =
      map (\<lambda>x. if x \<in> set users then writeFrom env x x else x) ?db1"
    using sub by (rule Cons.IH)
  also have "\<dots> = map (\<lambda>x. if x \<in> set (u # users) then writeFrom env x x else x) db"
    unfolding map_map
  proof (rule map_cong [OF refl])
    fix x assume "x \<in> set db"
    then show "((\<lambda>x. if x \<in> set users then writeFrom env x x else x) \<circ> ?step) x =
               (if x \<in> set (u # users) then writeFrom env x x else x)"
      using new by (simp add: step)
  qed
  finally show ?case by (simp only: batch_Cons)
qed

lemma batch_whole_store:
  assumes "distinct (map uid db)"
  shows "updateLeaderboardBatch env db db = map (refreshed env) db"
proof -
  from assms have "distinct db" by (rule distinct_map [THEN iffD1, THEN conjunct1])
  with assms have "updateLeaderboardBatch env db db =
      map (\<lambda>x. if x \<in> set db then writeFrom env x x else x) db"
    by (intro batch_as_map) simp_all
  also have "\<dots> = map (refreshed env) db"
    by (rule map_cong [OF refl]) (simp add: writeFrom_def refreshed_def)
  finally show ?thesis .
qed

lemma castNumber_Num: "castNumber v = Inr n \<longleftrightarrow> v = Num n"
  by (cases v) auto

lemma js_add_Num [simp]: "js_add (Num a) (Num b) = Num (a + b)"
  by (simp add: js_add_def)

lemma js_or_Num [simp]: "js_or (Num n) (Num 0) = Num n"
  by (simp add: js_or_def)


lemma castUpdate_Inr:
  "castUpdate upd = Inr (a, b, c, d, t) \<longleftrightarrow>
     codechefScore upd = Num a \<and> codeforcesScore upd = Num b \<and> leetcodeScore upd = Num c
     \<and> githubScore upd = Num d \<and> newTotalScore upd = Num t"
  by (auto simp: castUpdate_def andThen_def castNumber_Num split: sum.splits)

lemma batch_lookup:
  assumes "distinct (map uid db)" and "distinct users" and "set users \<subseteq> set db"
      and "u \<in> set users"
  shows "(\<exists>u'\<in>set (updateLeaderboardBatch env users db). uid u' = uid u)
       \<and> (\<forall>u'\<in>set (updateLeaderboardBatch env users db). uid u' = uid u \<longrightarrow> u' = refreshed env u)"
proof -
  let ?f = "\<lambda>x. if x \<in> set users then writeFrom env x x else x"
  have res: "updateLeaderboardBatch env users db = map ?f db"
    using assms(1-3) by (rule batch_as_map)
  from assms have inj: "inj_on uid (set db)" and u: "u \<in> set db" by (auto simp: distinct_map)
  have fu: "?f u = refreshed env u" using assms(4) by (simp add: writeFrom_def refreshed_def)
  have "?f u \<in> set (map ?f db)" using u by simp
  moreover have "uid (?f u) = uid u" by simp
  ultimately have ex: "\<exists>u'\<in>set (updateLeaderboardBatch env users db). uid u' = uid u"
    unfolding res by blast
  have "u' = refreshed env u" if "u' \<in> set (map ?f db)" and "uid u' = uid u" for u'
  proof -
    from that(1) obtain x where x: "x \<in> set db" "u' = ?f x" by auto
    then have "uid u' = uid x" by simp
    with that(2) x(1) u inj have "x = u" by (auto dest: inj_onD)
    with x(2) have "u' = ?f u" by (simp only:)
    with fu show ?thesis by (simp only:)
  qed
  with ex show ?thesis unfolding res by blast
qed


lemma carried_score:
  assumes "registered (entry p u) = None" and "castUpdate (aggregate env u) = Inr vals"
  shows "storedScoreOf (entry p (applyUpdate vals u)) =
           Some (case storedScoreOf (entry p u) of None \<Rightarrow> 0 | Some n \<Rightarrow> n)"
proof -
  obtain a b c d t where vals: "vals = (a, b, c, d, t)" by (cases vals rule: prod_cases5)
  with assms(2) have scores:
    "codechefScore (aggregate env u) = Num a" "codeforcesScore (aggregate env u) = Num b"
    "leetcodeScore (aggregate env u) = Num c" "githubScore (aggregate env u) = Num d"
    by (simp_all add: castUpdate_Inr)
  show ?thesis
  proof (cases p)
    case Codechef
    with assms(1) have "codechefScore (aggregate env u) = js_or (scoreOf (codechef (platforms u))) (Num 0)"
      by (simp add: aggregate_def Let_def)
    with scores(1) Codechef vals show ?thesis
      by (auto simp: storedScoreOf_def setScore_def scoreOf_def js_or_def split: option.splits if_splits)
  next
    case Codeforces
    with assms(1) have "codeforcesScore (aggregate env u) = js_or (scoreOf (codeforces (platforms u))) (Num 0)"
      by (simp add: aggregate_def Let_def)
    with scores(2) Codeforces vals show ?thesis
      by (auto simp: storedScoreOf_def setScore_def scoreOf_def js_or_def split: option.splits if_splits)
  next
    case Leetcode
    with assms(1) have "leetcodeScore (aggregate env u) = js_or (scoreOf (leetcode (platforms u))) (Num 0)"
      by (simp add: aggregate_def Let_def)
    with scores(3) Leetcode vals show ?thesis
      by (auto simp: storedScoreOf_def setScore_def scoreOf_def js_or_def split: option.splits if_splits)
  next
    case Github
    with assms(1) have "githubScore (aggregate env u) = js_or (scoreOf (github (platforms u))) (Num 0)"
      by (simp add: aggregate_def Let_def)
    with scores(4) Github vals show ?thesis
      by (auto simp: storedScoreOf_def setScore_def scoreOf_def js_or_def split: option.splits if_splits)
  qed
qed

text \<open>
  C4. A batch drawn from the store, a user \<open>u\<close> of the batch and a platform for which
  \<open>u\<close> has no registered username (no entry, no username, or an empty one): after the
  batch the stored score of that platform in \<open>u\<close>'s document is the one stored before.
  Where no score was stored before (the program reads that as 0), none or 0 is stored
  after; so a score is 0 afterwards only if it was 0 or absent before.
\<close>

theorem carry_forward:
  assumes "distinct (map uid db)" and "distinct users" and "set users \<subseteq> set db"
      and "u \<in> set users"
      and "registered (entry p u) = None"
  shows "(\<exists>u'\<in>set (updateLeaderboardBatch env users db). uid u' = uid u)
       \<and> (\<forall>u'\<in>set (updateLeaderboardBatch env users db). uid u' = uid u \<longrightarrow>
             (\<forall>n. storedScoreOf (entry p u) = Some n \<longrightarrow> storedScoreOf (entry p u') = Some n)
             \<and> (storedScoreOf (entry p u) = None \<longrightarrow>
                  storedScoreOf (entry p u') = None \<or> storedScoreOf (entry p u') = Some 0))"
proof -
  have "(\<forall>n. storedScoreOf (entry p u) = Some n \<longrightarrow> storedScoreOf (entry p (refreshed env u)) = Some n)
        \<and> (storedScoreOf (entry p u) = None \<longrightarrow>
              storedScoreOf (entry p (refreshed env u)) = None
              \<or> storedScoreOf (entry p (refreshed env u)) = Some 0)"
  proof (cases "castUpdate (aggregate env u)")
    case (Inl e)
    then show ?thesis by (simp add: refreshed_def)
  next
    case (Inr vals)
    then have "refreshed env u = applyUpdate vals u" by (simp add: refreshed_def)
    with carried_score [OF assms(5) Inr] show ?thesis by (auto split: option.splits)
  qed
  with batch_lookup [OF assms(1-4), of env] show ?thesis by metis
qed

lemmas example_defs =
  exampleStore_def alice_def bob_def carol_def exampleEnv_def exampleFetch_def exampleHost_def

lemmas fetch_defs =
  aggregate_def Let_def registered_def scoreOf_def js_or_def
  fetchCodeChefStats_def tryCodeChef_def fetchCodeforcesStats_def tryCodeforces_def
  fetchLeetCodeStats_def tryLeetCode_def fetchGitHubStats_def addCommits_def
  awaitJson_def andThen_def optProp_def

lemma aggregate_alice:
  "aggregate exampleEnv alice =
     \<lparr>codechefScore = Num 8, codeforcesScore = Num 12, leetcodeScore = Num 4,
      githubScore = Num 0, newTotalScore = Num 24\<rparr>"
  by (simp add: fetch_defs example_defs)

lemma aggregate_bob:
  "aggregate exampleEnv bob =
     \<lparr>codechefScore = Num 0, codeforcesScore = Num 7, leetcodeScore = Num 40,
      githubScore = Num 8, newTotalScore = Num 55\<rparr>"
  by (simp add: fetch_defs example_defs)

lemma aggregate_carol:
  "aggregate exampleEnv carol =
     \<lparr>codechefScore = Num 9, codeforcesScore = Num 0, leetcodeScore = Num 6,
      githubScore = Num 5, newTotalScore = Num 20\<rparr>"
  by (simp add: fetch_defs example_defs)


theorem carry_forward_witness:
  "distinct (map uid exampleStore) \<and> distinct [alice, bob]
   \<and> set [alice, bob] \<subseteq> set exampleStore \<and> bob \<in> set [alice, bob]
   \<and> registered (entry Codeforces bob) = None
   \<and> storedScoreOf (entry Codeforces bob) = Some 7
   \<and> (\<exists>u'\<in>set (updateLeaderboardBatch exampleEnv [alice, bob] exampleStore).
         uid u' = uid bob \<and> storedScoreOf (entry Codeforces u') = Some 7)
   \<and> alice \<in> set [alice, bob]
   \<and> registered (entry Github alice) = None
   \<and> storedScoreOf (entry Github alice) = None
   \<and> (\<exists>u'\<in>set (updateLeaderboardBatch exampleEnv [alice, bob] exampleStore).
         uid u' = uid alice
         \<and> (storedScoreOf (entry Github u') = None \<or> storedScoreOf (entry Github u') = Some 0))"
proof -
  have h1: "distinct (map uid exampleStore)" by (simp add: example_defs)
  have h2: "distinct [alice, bob]" by (simp add: example_defs)
  have h3: "set [alice, bob] \<subseteq> set exampleStore" by (simp add: exampleStore_def)
  have h4: "bob \<in> set [alice, bob]" and h4': "alice \<in> set [alice, bob]" by simp_all
  have h5: "registered (entry Codeforces bob) = None" by (simp add: registered_def bob_def)
  have h5': "registered (entry Github alice) = None" by (simp add: registered_def alice_def)
  have before: "storedScoreOf (entry Codeforces bob) = Some 7"
    by (simp add: storedScoreOf_def bob_def)
  have before': "storedScoreOf (entry Github alice) = None"
    by (simp add: storedScoreOf_def alice_def)
  from carry_forward [OF h1 h2 h3 h4 h5, of exampleEnv] before
  have bob: "\<exists>u'\<in>set (updateLeaderboardBatch exampleEnv [alice, bob] exampleStore).
         uid u' = uid bob \<and> storedScoreOf (entry Codeforces u') = Some 7"
    by blast
  from carry_forward [OF h1 h2 h3 h4' h5', of exampleEnv] before'
  have alice: "\<exists>u'\<in>set (updateLeaderboardBatch exampleEnv [alice, bob] exampleStore).
         uid u' = uid alice
         \<and> (storedScoreOf (entry Github u') = None \<or> storedScoreOf (entry Github u') = Some 0)"
    by blast
  from h1 h2 h3 h4 h4' h5 h5' before before' bob alice show ?thesis by (intro conjI)
qed

section \<open>Properties of the ranks\<close>

lemma uid_rankIn [simp]: "uid (rankIn i us x) = uid x"
  by (induction us arbitrary: i) simp_all

lemma totalScore_rankIn [simp]: "totalScore (rankIn i us x) = totalScore x"
  by (induction us arbitrary: i) simp_all

lemma rankIn_absent: "uid x \<notin> uid ` set us \<Longrightarrow> rankIn i us x = x"
  by (induction us arbitrary: i) auto

lemma rankIn_cong_uids: "map uid us = map uid vs \<Longrightarrow> rankIn i us x = rankIn i vs x"
proof (induction us arbitrary: vs i)
  case Nil
  then show ?case by simp
next
  case (Cons u us)
  then obtain v vs' where "vs = v # vs'" "uid u = uid v" "map uid us = map uid vs'" by auto
  with Cons.IH show ?case by simp
qed

lemma rankIn_idem: "rankIn i us (rankIn i us x) = rankIn i us x"
  by (induction us arbitrary: i) simp_all

lemma assignRanks_as_map:
  "distinct (map uid us) \<Longrightarrow> assignRanks i us db = map (rankIn i us) db"
proof (induction us arbitrary: i db)
  case Nil
  show ?case by simp
next
  case (Cons u us)
  then have absent: "uid u \<notin> uid ` set us" and dist: "distinct (map uid us)" by auto
  have "assignRanks i (u # us) db = assignRanks (i + 1) us (setRank (uid u) (int i + 1) db)"
    by simp
  also have "\<dots> = map (rankIn (i + 1) us) (setRank (uid u) (int i + 1) db)"
    using dist by (rule Cons.IH)
  also have "\<dots> = map (rankIn i (u # us)) db"
    unfolding setRank_def map_map
  proof (rule map_cong [OF refl])
    fix x
    show "(rankIn (i + 1) us \<circ> (\<lambda>x. if uid x = uid u then x\<lparr>rank := int i + 1\<rparr> else x)) x
            = rankIn i (u # us) x"
      using absent by (auto simp: rankIn_absent)
  qed
  finally show ?case .
qed

lemma distinct_uids_sorted:
  "distinct (map uid (findSortedByTotalScore db)) = distinct (map uid db)"
  by (simp add: findSortedByTotalScore_def distinct_map)

lemma updateRanks_as_map:
  "distinct (map uid db) \<Longrightarrow> updateRanks db = map (rankIn 0 (findSortedByTotalScore db)) db"
  by (simp add: updateRanks_def assignRanks_as_map distinct_uids_sorted)

lemma insort_key_map:
  assumes "\<And>x. f (g x) = f x"
  shows "insort_key f (g x) (map g ys) = map g (insort_key f x ys)"
  by (induction ys) (simp_all add: assms)

lemma sort_key_map:
  assumes "\<And>x. f (g x) = f x"
  shows "sort_key f (map g xs) = map g (sort_key f xs)"
  by (induction xs) (simp_all add: insort_key_map [where f = f and g = g, OF assms])

lemma sorted_after_ranks:
  "findSortedByTotalScore (map (rankIn i us) db) = map (rankIn i us) (findSortedByTotalScore db)"
  unfolding findSortedByTotalScore_def by (rule sort_key_map) simp

lemma ranks_of_sorted:
  "distinct (map uid us) \<Longrightarrow>
   map rank (map (rankIn i us) us) = map (\<lambda>k. int k + 1) [i..<i + length us]"
proof (induction us arbitrary: i)
  case Nil
  show ?case by simp
next
  case (Cons u us)
  then have absent: "uid u \<notin> uid ` set us" and dist: "distinct (map uid us)" by auto
  have "map (rankIn i (u # us)) us = map (rankIn (i + 1) us) us"
    by (rule map_cong [OF refl]) (use absent in auto)
  then have "map rank (map (rankIn i (u # us)) (u # us))
               = (int i + 1) # map rank (map (rankIn (i + 1) us) us)"
    by simp
  also have "\<dots> = (int i + 1) # map (\<lambda>k. int k + 1) [i + 1..<i + 1 + length us]"
    using Cons.IH [OF dist] by simp
  also have "\<dots> = map (\<lambda>k. int k + 1) [i..<i + length (u # us)]"
  proof -
    have "[i..<i + length (u # us)] = i # [i + 1..<i + 1 + length us]"
      by (subst upt_rec) simp
    then show ?thesis by (simp only: list.map)
  qed
  finally show ?case .
qed

lemma ranks_after_update:
  assumes "distinct (map uid db)"
  shows "map rank (findSortedByTotalScore (updateRanks db)) = map int [1..<length db + 1]"
proof -
  let ?S = "findSortedByTotalScore db"
  have "map rank (findSortedByTotalScore (updateRanks db)) = map rank (map (rankIn 0 ?S) ?S)"
    by (simp only: updateRanks_as_map [OF assms] sorted_after_ranks)
  also have "\<dots> = map (\<lambda>k. int k + 1) [0..<0 + length ?S]"
    using assms by (intro ranks_of_sorted) (simp add: distinct_uids_sorted)
  also have "\<dots> = map int [1..<length db + 1]"
    by (simp add: findSortedByTotalScore_def map_Suc_upt [symmetric] del: upt_Suc)
  finally show ?thesis .
qed

lemma uids_updateRanks: "map uid (updateRanks db) = map uid db"
proof -
  have "map uid (assignRanks i us d) = map uid d" for i us d
  proof (induction us arbitrary: i d)
    case Nil
    show ?case by simp
  next
    case (Cons u us)
    have "map uid (setRank (uid u) (int i + 1) d) = map uid d"
      by (induction d) (simp_all add: setRank_def)
    with Cons show ?case by simp
  qed
  then show ?thesis by (simp add: updateRanks_def)
qed

lemma totals_updateRanks: "map totalScore (updateRanks db) = map totalScore db"
proof -
  have "map totalScore (assignRanks i us d) = map totalScore d" for i us d
  proof (induction us arbitrary: i d)
    case Nil
    show ?case by simp
  next
    case (Cons u us)
    have "map totalScore (setRank (uid u) (int i + 1) d) = map totalScore d"
      by (induction d) (simp_all add: setRank_def)
    with Cons show ?case by simp
  qed
  then show ?thesis by (simp add: updateRanks_def)
qed

lemma rank_order:
  assumes sorted: "sorted (map (\<lambda>u. - totalScore u) S)"
      and ranks: "map rank S = map int [1..<length S + 1]"
      and u: "u \<in> set S" and v: "v \<in> set S"
      and gt: "totalScore u > totalScore v"
  shows "rank u < rank v"
proof -
  from u obtain i where i: "i < length S" "S ! i = u" by (auto simp: in_set_conv_nth)
  from v obtain j where j: "j < length S" "S ! j = v" by (auto simp: in_set_conv_nth)
  have rk: "rank (S ! k) = int k + 1" if "k < length S" for k
  proof -
    from that have "rank (S ! k) = map rank S ! k" by simp
    also have "\<dots> = map int [1..<length S + 1] ! k" by (simp only: ranks)
    also from that have "\<dots> = int k + 1" by (simp del: upt_Suc)
    finally show ?thesis .
  qed
  have "i < j"
  proof (rule ccontr)
    assume "\<not> i < j"
    then have "j \<le> i" by simp
    with sorted i(1) have "map (\<lambda>u. - totalScore u) S ! j \<le> map (\<lambda>u. - totalScore u) S ! i"
      by (intro sorted_nth_mono) simp_all
    with i j have "totalScore u \<le> totalScore v" by simp
    with gt show False by simp
  qed
  with i j rk [of i] rk [of j] show ?thesis by simp
qed

section \<open>Properties of a complete refresh cycle\<close>

lemma run_batches:
  assumes "\<forall>t\<in>set ts. \<exists>us. snd t = Batch us"
  shows "foldl (\<lambda>d timer. runTask env (snd timer) d) db ts =
           updateLeaderboardBatch env (concat (map (\<lambda>timer. batchUsers (snd timer)) ts)) db"
  using assms
proof (induction ts arbitrary: db)
  case Nil
  show ?case by simp
next
  case (Cons t ts)
  then obtain us where us: "snd t = Batch us" by auto
  from Cons have "foldl (\<lambda>d timer. runTask env (snd timer) d) (updateLeaderboardBatch env us db) ts =
      updateLeaderboardBatch env (concat (map (\<lambda>timer. batchUsers (snd timer)) ts))
        (updateLeaderboardBatch env us db)"
    by simp
  with us show ?case by (simp add: batch_append)
qed

lemma schedule_sorted:
  assumes B: "0 < B" and ts: "batchTimers B I 0 users = Some ts"
  shows "sorted (map fst (ts @ [(rankDelay B I users, Ranks)]))"
proof -
  have len: "length ts = (length users + B - 1) div B"
    using batchTimers_length [OF B ts] by simp
  have delay: "fst (ts ! k) = of_nat k * of_nat I" if "k < length ts" for k
    using batchTimers_nth [OF B ts that] B by simp
  have "sorted (map fst ts)"
    unfolding sorted_iff_nth_mono_less
  proof (intro allI impI)
    fix i j assume "i < j" "j < length (map fst ts)"
    then have "(of_nat i :: rat) * of_nat I \<le> of_nat j * of_nat I"
      by (intro mult_right_mono) simp_all
    with \<open>i < j\<close> \<open>j < length (map fst ts)\<close> show "map fst ts ! i \<le> map fst ts ! j"
      by (simp add: delay)
  qed
  moreover have "x \<le> rankDelay B I users" if "x \<in> set (map fst ts)" for x
  proof -
    from that obtain k where k: "k < length ts" "x = fst (ts ! k)"
      by (auto simp: in_set_conv_nth)
    from k(1) len have "k * B < length users" using batch_index_bound [OF B] by simp
    then have "of_nat k * (of_nat I :: rat) < (of_nat (length users) / of_nat B) * of_nat I + 5000"
      by (rule batch_before_ranks [OF B])
    with k show ?thesis by (simp add: delay rankDelay_def)
  qed
  ultimately show ?thesis by (simp add: sorted_append)
qed

lemma run_schedule:
  assumes B: "0 < B" and sched: "scheduleRefresh B I db = Some timers"
  shows "runTimers env timers db = updateRanks (updateLeaderboardBatch env db db)"
proof -
  from sched obtain ts where ts: "batchTimers B I 0 db = Some ts"
    and timers: "timers = ts @ [(rankDelay B I db, Ranks)]"
    by (auto simp: scheduleRefresh_def)
  have batches: "\<forall>t\<in>set ts. \<exists>us. snd t = Batch us"
  proof
    fix t assume "t \<in> set ts"
    then obtain k where "k < length ts" "t = ts ! k" by (auto simp: in_set_conv_nth)
    with batchTimers_nth [OF B ts] show "\<exists>us. snd t = Batch us" by simp
  qed
  have "sort_key fst timers = timers"
    unfolding timers using schedule_sorted [OF B ts] by (rule sort_key_id_if_sorted)
  then have "runTimers env timers db =
      updateRanks (foldl (\<lambda>d timer. runTask env (snd timer) d) db ts)"
    by (simp add: runTimers_def timers)
  also have "foldl (\<lambda>d timer. runTask env (snd timer) d) db ts =
      updateLeaderboardBatch env (concat (map (\<lambda>timer. batchUsers (snd timer)) ts)) db"
    using batches by (rule run_batches)
  also have "concat (map (\<lambda>timer. batchUsers (snd timer)) ts) = db"
    using batchTimers_concat [OF B ts] by simp
  finally show ?thesis .
qed

lemma refreshCycle_eq:
  "refreshCycle env db = Some (updateRanks (updateLeaderboardBatch env db db))"
proof -
  have B: "0 < batchSize" by (simp add: batchSize_def)
  then obtain ts where "batchTimers batchSize updateInterval 0 db = Some ts"
    using batchTimers_returns by blast
  then have "refreshLeaderboard db = Some (ts @ [(rankDelay batchSize updateInterval db, Ranks)])"
    by (simp add: refreshLeaderboard_def scheduleRefresh_def)
  then show ?thesis
    using run_schedule [OF B, of updateInterval db _ env]
    by (simp add: refreshCycle_def refreshLeaderboard_def)
qed

text \<open>
  C1. A complete refresh cycle over a store of \<open>N\<close> users with distinct ids returns a
  store of the same users in which the user at position \<open>k\<close> of the list sorted by
  \<open>totalScore\<close> descending has rank \<open>k + 1\<close>; the ranks, as a multiset, are exactly
  \<open>1, \<dots>, N\<close>; and a user with a strictly greater \<open>totalScore\<close> has a strictly smaller
  rank.
\<close>

theorem ranks_after_refresh:
  assumes "distinct (map uid db)"
  shows "\<exists>db'. refreshCycle env db = Some db'
     \<and> map uid db' = map uid db
     \<and> map rank (findSortedByTotalScore db') = map int [1..<length db + 1]
     \<and> mset (map rank db') = mset (map int [1..<length db + 1])
     \<and> (\<forall>u\<in>set db'. \<forall>v\<in>set db'. totalScore u > totalScore v \<longrightarrow> rank u < rank v)"
proof -
  let ?db1 = "updateLeaderboardBatch env db db"
  let ?db' = "updateRanks ?db1"
  let ?S = "findSortedByTotalScore ?db'"
  have d1: "distinct (map uid ?db1)" using assms by (simp only: batch_uids)
  have len: "length ?db1 = length db" using batch_uids [of env db db] by (metis length_map)
  have uids: "map uid ?db' = map uid db" by (simp only: uids_updateRanks batch_uids)
  have ranks: "map rank ?S = map int [1..<length db + 1]"
    using ranks_after_update [OF d1] by (simp only: len)
  have "mset ?S = mset ?db'" by (simp add: findSortedByTotalScore_def)
  then have "mset (map rank ?db') = mset (map rank ?S)" by (metis mset_map)
  with ranks have multiset: "mset (map rank ?db') = mset (map int [1..<length db + 1])" by simp
  have lenS: "length ?S = length db"
    using uids by (simp add: findSortedByTotalScore_def) (metis length_map)
  have sorted: "sorted (map (\<lambda>u. - totalScore u) ?S)"
    by (simp add: findSortedByTotalScore_def)
  have order: "rank u < rank v"
    if "u \<in> set ?db'" "v \<in> set ?db'" "totalScore u > totalScore v" for u v
  proof -
    from that have "u \<in> set ?S" "v \<in> set ?S" by (simp_all add: findSortedByTotalScore_def)
    with sorted ranks that(3) show ?thesis by (intro rank_order [of ?S]) (simp_all only: lenS)
  qed
  show ?thesis
  proof (rule exI [of _ ?db'], intro conjI ballI impI)
    show "refreshCycle env db = Some ?db'" by (rule refreshCycle_eq)
    show "map uid ?db' = map uid db" by (rule uids)
    show "map rank ?S = map int [1..<length db + 1]" by (rule ranks)
    show "mset (map rank ?db') = mset (map int [1..<length db + 1])" by (rule multiset)
    show "rank u < rank v" if "u \<in> set ?db'" "v \<in> set ?db'" "totalScore u > totalScore v" for u v
      using that by (rule order)
  qed
qed

lemma codechef_stable:
  "fetchCodeChefStats http h (score (fetchCodeChefStats http h prev)) = fetchCodeChefStats http h prev"
  by (auto simp: fetchCodeChefStats_def tryCodeChef_def andThen_def split: sum.splits)

lemma codeforces_stable:
  "fetchCodeforcesStats http h (score (fetchCodeforcesStats http h prev)) = fetchCodeforcesStats http h prev"
  by (auto simp: fetchCodeforcesStats_def tryCodeforces_def andThen_def split: sum.splits)

lemma leetcode_stable:
  "fetchLeetCodeStats http h (score (fetchLeetCodeStats http h prev)) = fetchLeetCodeStats http h prev"
  by (auto simp: fetchLeetCodeStats_def tryLeetCode_def andThen_def split: sum.splits)

lemma github_stable:
  "fetchGitHubStats api ident (score (fetchGitHubStats api ident prev)) = fetchGitHubStats api ident prev"
  by (auto simp: fetchGitHubStats_def split: option.splits awaited.splits)

lemma registered_setScore [simp]: "registered (setScore n e) = registered e"
  by (simp add: registered_def setScore_def split: option.splits)

lemma scoreOf_setScore [simp]: "scoreOf (setScore n e) = Num n"
  by (simp add: scoreOf_def setScore_def split: option.splits)

lemma setScore_idem [simp]: "setScore n (setScore n e) = setScore n e"
  by (simp add: setScore_def split: option.splits)


lemma codechef_stat_stable:
  assumes "score (case r of Some name \<Rightarrow> fetchCodeChefStats http name p | None \<Rightarrow> \<lparr>score = p\<rparr>) = Num a"
  shows "(case r of Some name \<Rightarrow> fetchCodeChefStats http name (Num a) | None \<Rightarrow> \<lparr>score = Num a\<rparr>)
           = (case r of Some name \<Rightarrow> fetchCodeChefStats http name p | None \<Rightarrow> \<lparr>score = p\<rparr>)"
proof (cases r)
  case None
  with assms show ?thesis by simp
next
  case (Some name)
  with assms have "score (fetchCodeChefStats http name p) = Num a" by simp
  with codechef_stable [of http name p] Some show ?thesis by simp
qed

lemma codeforces_stat_stable:
  assumes "score (case r of Some name \<Rightarrow> fetchCodeforcesStats http name p | None \<Rightarrow> \<lparr>score = p\<rparr>) = Num a"
  shows "(case r of Some name \<Rightarrow> fetchCodeforcesStats http name (Num a) | None \<Rightarrow> \<lparr>score = Num a\<rparr>)
           = (case r of Some name \<Rightarrow> fetchCodeforcesStats http name p | None \<Rightarrow> \<lparr>score = p\<rparr>)"
proof (cases r)
  case None
  with assms show ?thesis by simp
next
  case (Some name)
  with assms have "score (fetchCodeforcesStats http name p) = Num a" by simp
  with codeforces_stable [of http name p] Some show ?thesis by simp
qed

lemma leetcode_stat_stable:
  assumes "score (case r of Some name \<Rightarrow> fetchLeetCodeStats http name p | None \<Rightarrow> \<lparr>score = p\<rparr>) = Num a"
  shows "(case r of Some name \<Rightarrow> fetchLeetCodeStats http name (Num a) | None \<Rightarrow> \<lparr>score = Num a\<rparr>)
           = (case r of Some name \<Rightarrow> fetchLeetCodeStats http name p | None \<Rightarrow> \<lparr>score = p\<rparr>)"
proof (cases r)
  case None
  with assms show ?thesis by simp
next
  case (Some name)
  with assms have "score (fetchLeetCodeStats http name p) = Num a" by simp
  with leetcode_stable [of http name p] Some show ?thesis by simp
qed

lemma github_stat_stable:
  assumes "score (case r of Some name \<Rightarrow> fetchGitHubStats api (Some name) p | None \<Rightarrow> \<lparr>score = p\<rparr>) = Num a"
  shows "(case r of Some name \<Rightarrow> fetchGitHubStats api (Some name) (Num a) | None \<Rightarrow> \<lparr>score = Num a\<rparr>)
           = (case r of Some name \<Rightarrow> fetchGitHubStats api (Some name) p | None \<Rightarrow> \<lparr>score = p\<rparr>)"
proof (cases r)
  case None
  with assms show ?thesis by simp
next
  case (Some name)
  with assms have "score (fetchGitHubStats api (Some name) p) = Num a" by simp
  with github_stable [of api "Some name" p] Some show ?thesis by simp
qed

lemma aggregate_stable:
  assumes "castUpdate (aggregate env x) = Inr (a, b, c, d, t)"
  shows "aggregate env (applyUpdate (a, b, c, d, t) x) = aggregate env x"
proof -
  from assms have
    "codechefScore (aggregate env x) = Num a" "codeforcesScore (aggregate env x) = Num b"
    "leetcodeScore (aggregate env x) = Num c" "githubScore (aggregate env x) = Num d"
    by (simp_all add: castUpdate_Inr)
  then have
    "score (case registered (codechef (platforms x)) of
              Some name \<Rightarrow> fetchCodeChefStats (fetch env) name (js_or (scoreOf (codechef (platforms x))) (Num 0))
            | None \<Rightarrow> \<lparr>score = js_or (scoreOf (codechef (platforms x))) (Num 0)\<rparr>) = Num a"
    "score (case registered (codeforces (platforms x)) of
              Some name \<Rightarrow> fetchCodeforcesStats (fetch env) name (js_or (scoreOf (codeforces (platforms x))) (Num 0))
            | None \<Rightarrow> \<lparr>score = js_or (scoreOf (codeforces (platforms x))) (Num 0)\<rparr>) = Num b"
    "score (case registered (leetcode (platforms x)) of
              Some name \<Rightarrow> fetchLeetCodeStats (fetch env) name (js_or (scoreOf (leetcode (platforms x))) (Num 0))
            | None \<Rightarrow> \<lparr>score = js_or (scoreOf (leetcode (platforms x))) (Num 0)\<rparr>) = Num c"
    "score (case registered (github (platforms x)) of
              Some name \<Rightarrow> fetchGitHubStats (octokitApi env) (Some name) (js_or (scoreOf (github (platforms x))) (Num 0))
            | None \<Rightarrow> \<lparr>score = js_or (scoreOf (github (platforms x))) (Num 0)\<rparr>) = Num d"
    by (simp_all add: aggregate_def Let_def)
  then show ?thesis
    by (simp add: aggregate_def Let_def codechef_stat_stable codeforces_stat_stable
          leetcode_stat_stable github_stat_stable)
qed

lemma refreshed_idem: "refreshed env (refreshed env x) = refreshed env x"
proof (cases "castUpdate (aggregate env x)")
  case (Inl e)
  then show ?thesis by (simp add: refreshed_def)
next
  case (Inr vals)
  obtain a b c d t where vals: "vals = (a, b, c, d, t)" by (cases vals rule: prod_cases5)
  with Inr have first: "refreshed env x = applyUpdate (a, b, c, d, t) x" by (simp add: refreshed_def)
  from Inr vals have "aggregate env (applyUpdate (a, b, c, d, t) x) = aggregate env x"
    by (intro aggregate_stable) simp
  with Inr vals have "refreshed env (applyUpdate (a, b, c, d, t) x)
      = applyUpdate (a, b, c, d, t) (applyUpdate (a, b, c, d, t) x)"
    by (simp add: refreshed_def)
  also have "\<dots> = applyUpdate (a, b, c, d, t) x" by simp
  finally show ?thesis by (simp only: first)
qed

lemma aggregate_rank [simp]: "aggregate env (x\<lparr>rank := r\<rparr>) = aggregate env x"
  by (simp add: aggregate_def)

lemma refreshed_rank: "refreshed env (x\<lparr>rank := r\<rparr>) = (refreshed env x)\<lparr>rank := r\<rparr>"
  by (simp add: refreshed_def split: sum.splits prod.splits)

lemma uid_refreshed [simp]: "uid (refreshed env x) = uid x"
  by (simp add: refreshed_def split: sum.splits)

lemma refreshed_rankIn: "refreshed env (rankIn i us x) = rankIn i us (refreshed env x)"
  by (induction us arbitrary: i) (simp_all add: refreshed_rank)

lemma updateRanks_idem:
  assumes "distinct (map uid db)"
  shows "updateRanks (updateRanks db) = updateRanks db"
proof -
  let ?S = "findSortedByTotalScore db"
  let ?db1 = "map (rankIn 0 ?S) db"
  have db1: "updateRanks db = ?db1" using assms by (rule updateRanks_as_map)
  have "distinct (map uid ?db1)" using assms by (simp add: comp_def)
  then have "updateRanks ?db1 = map (rankIn 0 (findSortedByTotalScore ?db1)) ?db1"
    by (rule updateRanks_as_map)
  also have "findSortedByTotalScore ?db1 = map (rankIn 0 ?S) ?S" by (rule sorted_after_ranks)
  also have "map (rankIn 0 (map (rankIn 0 ?S) ?S)) ?db1 = map (rankIn 0 ?S) ?db1"
    by (rule map_cong [OF refl], rule rankIn_cong_uids) (simp add: comp_def)
  also have "\<dots> = ?db1" by (simp add: rankIn_idem comp_def)
  finally show ?thesis by (simp only: db1)
qed

lemma batch_after_cycle:
  assumes "distinct (map uid db)"
  shows "updateLeaderboardBatch env (updateRanks (map (refreshed env) db))
           (updateRanks (map (refreshed env) db)) = updateRanks (map (refreshed env) db)"
proof -
  let ?A = "map (refreshed env) db"
  let ?S = "findSortedByTotalScore ?A"
  have dA: "distinct (map uid ?A)" using assms by (simp add: comp_def)
  then have db1: "updateRanks ?A = map (rankIn 0 ?S) ?A" by (rule updateRanks_as_map)
  have "distinct (map uid (updateRanks ?A))" using dA by (simp only: uids_updateRanks)
  then have "updateLeaderboardBatch env (updateRanks ?A) (updateRanks ?A)
               = map (refreshed env) (updateRanks ?A)"
    by (rule batch_whole_store)
  also have "\<dots> = map (rankIn 0 ?S) (map (refreshed env) ?A)"
    by (simp add: db1 comp_def refreshed_rankIn)
  also have "map (refreshed env) ?A = ?A" by (simp add: comp_def refreshed_idem)
  finally show ?thesis by (simp only: db1)
qed

text \<open>
  C9. With the external platform data fixed, a complete refresh cycle on a store with
  distinct ids, followed at once by a second complete cycle: the second cycle returns
  the store the first one returned, so every user has the same \<open>totalScore\<close> and the
  same rank after both runs.
\<close>

theorem refresh_twice:
  assumes "distinct (map uid db)"
  shows "\<exists>db1 db2. refreshCycle env db = Some db1 \<and> refreshCycle env db1 = Some db2
     \<and> map uid db2 = map uid db1
     \<and> map totalScore db2 = map totalScore db1
     \<and> map rank db2 = map rank db1
     \<and> db2 = db1"
proof -
  let ?A = "map (refreshed env) db"
  let ?db1 = "updateRanks ?A"
  have dA: "distinct (map uid ?A)" using assms by (simp add: comp_def)
  have first: "refreshCycle env db = Some ?db1"
    by (simp only: refreshCycle_eq batch_whole_store [OF assms])
  have "refreshCycle env ?db1 = Some (updateRanks (updateLeaderboardBatch env ?db1 ?db1))"
    by (rule refreshCycle_eq)
  also have "updateLeaderboardBatch env ?db1 ?db1 = ?db1" using assms by (rule batch_after_cycle)
  also have "updateRanks ?db1 = ?db1" using dA by (rule updateRanks_idem)
  finally have second: "refreshCycle env ?db1 = Some ?db1" .
  from first second show ?thesis by blast
qed

lemma refreshed_alice: "refreshed exampleEnv alice = aliceRefreshed\<lparr>rank := 2\<rparr>"
proof -
  have "refreshed exampleEnv alice = applyUpdate (8, 12, 4, 0, 24) alice"
    by (simp add: refreshed_def aggregate_alice castUpdate_def andThen_def)
  then show ?thesis by (simp add: alice_def aliceRefreshed_def setScore_def)
qed

lemma refreshed_bob: "refreshed exampleEnv bob = bobRefreshed\<lparr>rank := 3\<rparr>"
proof -
  have "refreshed exampleEnv bob = applyUpdate (0, 7, 40, 8, 55) bob"
    by (simp add: refreshed_def aggregate_bob castUpdate_def andThen_def)
  then show ?thesis by (simp add: bob_def bobRefreshed_def setScore_def)
qed

lemma refreshed_carol: "refreshed exampleEnv carol = carolRefreshed\<lparr>rank := 1\<rparr>"
proof -
  have "refreshed exampleEnv carol = applyUpdate (9, 0, 6, 5, 20) carol"
    by (simp add: refreshed_def aggregate_carol castUpdate_def andThen_def)
  then show ?thesis by (simp add: carol_def carolRefreshed_def setScore_def)
qed

lemma example_cycle:
  "refreshCycle exampleEnv exampleStore = Some [aliceRefreshed, bobRefreshed, carolRefreshed]"
proof -
  have "distinct (map uid exampleStore)" by (simp add: example_defs)
  then have "refreshCycle exampleEnv exampleStore =
      Some (updateRanks (map (refreshed exampleEnv) exampleStore))"
    by (simp only: refreshCycle_eq batch_whole_store)
  also have "map (refreshed exampleEnv) exampleStore =
      [aliceRefreshed\<lparr>rank := 2\<rparr>, bobRefreshed\<lparr>rank := 3\<rparr>, carolRefreshed\<lparr>rank := 1\<rparr>]"
    by (simp add: exampleStore_def refreshed_alice refreshed_bob refreshed_carol)
  also have "updateRanks \<dots> = [aliceRefreshed, bobRefreshed, carolRefreshed]"
    by (simp add: updateRanks_def findSortedByTotalScore_def setRank_def
          aliceRefreshed_def bobRefreshed_def carolRefreshed_def carol_def)
  finally show ?thesis .
qed

theorem ranks_after_refresh_witness:
  "distinct (map uid exampleStore)
   \<and> refreshCycle exampleEnv exampleStore = Some [aliceRefreshed, bobRefreshed, carolRefreshed]
   \<and> map totalScore [aliceRefreshed, bobRefreshed, carolRefreshed] = [24, 55, 20]
   \<and> map rank [aliceRefreshed, bobRefreshed, carolRefreshed] = [2, 1, 3]
   \<and> map rank (findSortedByTotalScore [aliceRefreshed, bobRefreshed, carolRefreshed]) = [1, 2, 3]
   \<and> mset (map rank [aliceRefreshed, bobRefreshed, carolRefreshed]) = mset [1, 2, 3]"
proof -
  have d: "distinct (map uid exampleStore)" by (simp add: example_defs)
  have three: "map int [1..<length exampleStore + 1] = [1, 2, 3]"
    by (simp add: exampleStore_def upt_rec)
  from ranks_after_refresh [OF d, of exampleEnv]
  have "map rank (findSortedByTotalScore [aliceRefreshed, bobRefreshed, carolRefreshed]) = [1, 2, 3]
      \<and> mset (map rank [aliceRefreshed, bobRefreshed, carolRefreshed]) = mset [1, 2, 3]"
    by (simp only: example_cycle three option.inject ex_simps simp_thms)
  with d example_cycle show ?thesis
    by (simp add: aliceRefreshed_def bobRefreshed_def carolRefreshed_def carol_def)
qed

theorem refresh_twice_witness:
  "distinct (map uid exampleStore)
   \<and> refreshCycle exampleEnv exampleStore = Some [aliceRefreshed, bobRefreshed, carolRefreshed]
   \<and> refreshCycle exampleEnv [aliceRefreshed, bobRefreshed, carolRefreshed]
       = Some [aliceRefreshed, bobRefreshed, carolRefreshed]"
proof -
  have d: "distinct (map uid exampleStore)" by (simp add: example_defs)
  from refresh_twice [OF d, of exampleEnv]
  have "refreshCycle exampleEnv [aliceRefreshed, bobRefreshed, carolRefreshed]
       = Some [aliceRefreshed, bobRefreshed, carolRefreshed]"
    by (simp only: example_cycle option.inject) metis
  with d example_cycle show ?thesis by simp
qed

section \<open>Properties of the update request\<close>

lemma update_request_store:
  "status (fst (POST body db)) \<noteq> 200 \<Longrightarrow> snd (POST body db) = db"
  by (auto simp: POST_def tryPOST_def andThen_def liftThrown_def
           split: sum.splits awaited.splits option.splits if_splits)

text \<open>
  C8, as the code has it. A request whose body parses to a JSON value other than
  \<open>null\<close>, its fields \<open>email\<close>, \<open>codeforcesUsername\<close> and \<open>stats\<close> read as \<open>e\<close>, \<open>c\<close>
  and \<open>s\<close> (a field that is not there reads as \<open>undefined\<close>): if one of the three is
  missing, which the handler tests as falsy, the response is status 400 with the message
  \<open>Missing required fields\<close>; if all three are truthy and no user has the given email,
  the response is status 404 with the message \<open>User not found\<close>. A request whose body
  does not parse, or is \<open>null\<close>, is answered with status 500. In all these cases the
  store is unchanged.
\<close>

theorem update_request_rejected:
  "(getProp b ''email'' = Inr e \<and> getProp b ''codeforcesUsername'' = Inr c
      \<and> getProp b ''stats'' = Inr s \<and> (\<not> truthy e \<or> \<not> truthy c \<or> \<not> truthy s) \<longrightarrow>
        POST (Resolved b) db = (\<lparr>status = 400, message = ''Missing required fields''\<rparr>, db))
   \<and> (getProp b ''email'' = Inr e \<and> getProp b ''codeforcesUsername'' = Inr c
      \<and> getProp b ''stats'' = Inr s \<and> truthy e \<and> truthy c \<and> truthy s
      \<and> (\<forall>u\<in>set db. Str (email u) \<noteq> e) \<longrightarrow>
        POST (Resolved b) db = (\<lparr>status = 404, message = ''User not found''\<rparr>, db))
   \<and> POST Rejected db = (\<lparr>status = 500, message = ''Internal server error''\<rparr>, db)
   \<and> POST (Resolved Null) db = (\<lparr>status = 500, message = ''Internal server error''\<rparr>, db)"
proof -
  have "findOne e db = None" if "\<forall>u\<in>set db. Str (email u) \<noteq> e"
    using that by (simp add: findOne_def find_None_iff)
  then show ?thesis
    by (auto simp: POST_def tryPOST_def andThen_def liftThrown_def)
qed

theorem update_request_rejected_witness:
  "POST (Resolved missingStatsBody) exampleStore
     = (\<lparr>status = 400, message = ''Missing required fields''\<rparr>, exampleStore)
   \<and> POST (Resolved unknownEmailBody) exampleStore
     = (\<lparr>status = 404, message = ''User not found''\<rparr>, exampleStore)"
  using update_request_rejected [of missingStatsBody "Str ''alice@example.com''" "Str ''alice_cf''"
          Undefined exampleStore]
        update_request_rejected [of unknownEmailBody "Str ''nobody@example.com''" "Str ''nobody''"
          "Obj [(''contribution'', Num 10)]" exampleStore]
  by (simp add: missingStatsBody_def unknownEmailBody_def example_defs)

text \<open>
  A request without a JSON body, or with the body \<open>null\<close>, has none of the required
  fields, and is answered with status 500, not 400.
\<close>

theorem update_request_without_body:
  "POST Rejected exampleStore = (\<lparr>status = 500, message = ''Internal server error''\<rparr>, exampleStore)
   \<and> POST (Resolved Null) exampleStore
        = (\<lparr>status = 500, message = ''Internal server error''\<rparr>, exampleStore)"
  by (simp add: POST_def tryPOST_def andThen_def liftThrown_def)

end
